theory Spec2Isabelle
  imports Complex_Main
begin

section \<open>Tokens\<close>

text \<open>
  A \<open>Token\<close> of the source carries a \<open>type\<close> string and a \<open>value\<close>. The lexer builds
  exactly four shapes: \<open>NUMBER\<close> with an integer, and \<open>IDENTIFIER\<close>, \<open>KEYWORD\<close> and
  \<open>OPERATOR\<close> with a string. The datatype has one constructor per shape; \<open>ttype\<close> and
  \<open>tvalue\<close> read the two attributes back.
\<close>

datatype token_value = IntVal int | StrVal string

datatype token = NUMBER int | IDENTIFIER string | KEYWORD string | OPERATOR string

fun ttype :: "token \<Rightarrow> string" where
  "ttype (NUMBER _) = ''NUMBER''"
| "ttype (IDENTIFIER _) = ''IDENTIFIER''"
| "ttype (KEYWORD _) = ''KEYWORD''"
| "ttype (OPERATOR _) = ''OPERATOR''"

fun tvalue :: "token \<Rightarrow> token_value" where
  "tvalue (NUMBER n) = IntVal n"
| "tvalue (IDENTIFIER s) = StrVal s"
| "tvalue (KEYWORD s) = StrVal s"
| "tvalue (OPERATOR s) = StrVal s"

section \<open>Abstract syntax\<close>

text \<open>
  The six node classes. The fields that the parser fills from \<open>statement()\<close> (the bodies of
  \<open>if\<close> and \<open>while\<close>, and the \<open>else\<close> body) may hold Python's \<open>None\<close>, so they are
  options; the fields filled from \<open>expression()\<close> always hold a node.
\<close>

datatype node =
    BinaryOpNode node string node
  | NumberNode int
  | VariableNode string
  | AssignmentNode string node
  | IfNode node "node option" "node option"
  | WhileNode node "node option"

section \<open>Parser\<close>

text \<open>
  The parser state is the token list and the position \<open>pos\<close>; every parsing method takes
  the position and returns the new one with its result. Each \<open>raise\<close> of the source is a
  constructor of \<open>parse_error\<close>: the three messages of \<open>consume\<close>, the message of
  \<open>primary\<close>, and the \<open>AttributeError\<close> that Python raises when \<open>primary\<close> reads
  \<open>.type\<close> of the \<open>None\<close> that \<open>current_token()\<close> returns at the end of the tokens.
\<close>

datatype parse_error =
    UnexpectedEnd | UnexpectedKind | UnexpectedValue | InvalidPrimary | AttributeError

definition current_token :: "token list \<Rightarrow> nat \<Rightarrow> token option" where
  "current_token tokens pos = (if pos \<ge> length tokens then None else Some (tokens ! pos))"

definition peek_next_token :: "token list \<Rightarrow> nat \<Rightarrow> token option" where
  "peek_next_token tokens pos =
     (if pos + 1 < length tokens then Some (tokens ! (pos + 1)) else None)"

definition consume :: "token list \<Rightarrow> nat \<Rightarrow> string \<Rightarrow> string option \<Rightarrow> parse_error + (token \<times> nat)" where
  "consume tokens pos expected_type expected_value =
     (case current_token tokens pos of
        None \<Rightarrow> Inl UnexpectedEnd
      | Some t \<Rightarrow>
          if ttype t \<noteq> expected_type then Inl UnexpectedKind
          else if (case expected_value of None \<Rightarrow> False
                   | Some v \<Rightarrow> v \<noteq> [] \<and> tvalue t \<noteq> StrVal v) then Inl UnexpectedValue
          else Inr (t, pos + 1))"

text \<open>
  \<open>primary\<close> inspects the current token and then consumes it; \<open>consume\<close> returns that same
  token (lemma \<open>consume_pos\<close>), so the node is built from the value matched here.
\<close>

definition primary :: "token list \<Rightarrow> nat \<Rightarrow> parse_error + (node \<times> nat)" where
  "primary tokens pos =
     (case current_token tokens pos of
        None \<Rightarrow> Inl AttributeError
      | Some (NUMBER v) \<Rightarrow>
          (case consume tokens pos ''NUMBER'' None of
             Inl e \<Rightarrow> Inl e
           | Inr (tok, pos') \<Rightarrow> Inr (NumberNode v, pos'))
      | Some (IDENTIFIER v) \<Rightarrow>
          (case consume tokens pos ''IDENTIFIER'' None of
             Inl e \<Rightarrow> Inl e
           | Inr (tok, pos') \<Rightarrow> Inr (VariableNode v, pos'))
      | Some _ \<Rightarrow> Inl InvalidPrimary)"

lemma consume_pos:
  "consume tokens pos k v = Inr (t, pos') \<Longrightarrow>
     pos' = pos + 1 \<and> pos < length tokens \<and> t = tokens ! pos \<and> ttype t = k"
  by (auto simp: consume_def current_token_def split: if_splits option.splits)

lemma primary_pos:
  "primary tokens pos = Inr (n, pos') \<Longrightarrow> pos' = pos + 1 \<and> pos < length tokens"
  by (auto simp: primary_def current_token_def
      split: if_splits option.splits token.splits sum.splits dest!: consume_pos)

text \<open>
  The \<open>while\<close> loop of \<open>multiplication\<close>, with the node built so far as its accumulator.
  It terminates because each round consumes two tokens.
\<close>

function multiplication_loop :: "token list \<Rightarrow> nat \<Rightarrow> node \<Rightarrow> parse_error + (node \<times> nat)" where
  "multiplication_loop tokens pos node =
     (case current_token tokens pos of
        Some (OPERATOR s) \<Rightarrow>
          if s = ''*'' \<or> s = ''/'' then
            (case consume tokens pos ''OPERATOR'' None of
               Inl e \<Rightarrow> Inl e
             | Inr (tok, pos1) \<Rightarrow>
                 (case primary tokens pos1 of
                    Inl e \<Rightarrow> Inl e
                  | Inr (right, pos2) \<Rightarrow>
                      multiplication_loop tokens pos2 (BinaryOpNode node s right)))
          else Inr (node, pos)
      | _ \<Rightarrow> Inr (node, pos))"
  by pat_completeness auto
termination
  apply (relation "measure (\<lambda>(tokens, pos, node). length tokens - pos)")
  apply (auto dest!: consume_pos primary_pos)
  done

declare multiplication_loop.simps [simp del]

definition multiplication :: "token list \<Rightarrow> nat \<Rightarrow> parse_error + (node \<times> nat)" where
  "multiplication tokens pos =
     (case primary tokens pos of
        Inl e \<Rightarrow> Inl e
      | Inr (node, pos1) \<Rightarrow> multiplication_loop tokens pos1 node)"

lemma multiplication_loop_pos:
  "multiplication_loop tokens pos node = Inr (n, pos') \<Longrightarrow> pos \<le> pos'"
proof (induction tokens pos node rule: multiplication_loop.induct)
  case (1 tokens pos node)
  show ?case
  proof (cases "\<exists>s. current_token tokens pos = Some (OPERATOR s) \<and> (s = ''*'' \<or> s = ''/'')")
    case False
    with "1.prems" show ?thesis
      by (subst (asm) multiplication_loop.simps) (auto split: option.splits token.splits if_splits)
  next
    case True
    then obtain s where s: "current_token tokens pos = Some (OPERATOR s)" "s = ''*'' \<or> s = ''/''"
      by blast
    from "1.prems" s obtain tok pos1 right pos2 where
      c: "consume tokens pos ''OPERATOR'' None = Inr (tok, pos1)" and
      p: "primary tokens pos1 = Inr (right, pos2)" and
      r: "multiplication_loop tokens pos2 (BinaryOpNode node s right) = Inr (n, pos')"
      by (subst (asm) multiplication_loop.simps) (auto split: sum.splits)
    have "pos2 \<le> pos'"
      using "1.IH" [OF s(1) refl s(2) c refl p refl r] .
    with consume_pos [OF c] primary_pos [OF p] show ?thesis by simp
  qed
qed

lemma multiplication_pos:
  "multiplication tokens pos = Inr (n, pos') \<Longrightarrow> pos < pos' \<and> pos < length tokens"
  by (auto simp: multiplication_def split: sum.splits dest!: primary_pos multiplication_loop_pos)

text \<open>The \<open>while\<close> loop of \<open>addition\<close>.\<close>

function addition_loop :: "token list \<Rightarrow> nat \<Rightarrow> node \<Rightarrow> parse_error + (node \<times> nat)" where
  "addition_loop tokens pos node =
     (case current_token tokens pos of
        Some (OPERATOR s) \<Rightarrow>
          if s = ''+'' \<or> s = ''-'' then
            (case consume tokens pos ''OPERATOR'' None of
               Inl e \<Rightarrow> Inl e
             | Inr (tok, pos1) \<Rightarrow>
                 (case multiplication tokens pos1 of
                    Inl e \<Rightarrow> Inl e
                  | Inr (right, pos2) \<Rightarrow>
                      addition_loop tokens pos2 (BinaryOpNode node s right)))
          else Inr (node, pos)
      | _ \<Rightarrow> Inr (node, pos))"
  by pat_completeness auto
termination
  apply (relation "measure (\<lambda>(tokens, pos, node). length tokens - pos)")
  apply (auto dest!: consume_pos multiplication_pos)
  done

declare addition_loop.simps [simp del]

definition addition :: "token list \<Rightarrow> nat \<Rightarrow> parse_error + (node \<times> nat)" where
  "addition tokens pos =
     (case multiplication tokens pos of
        Inl e \<Rightarrow> Inl e
      | Inr (node, pos1) \<Rightarrow> addition_loop tokens pos1 node)"

definition expression :: "token list \<Rightarrow> nat \<Rightarrow> parse_error + (node \<times> nat)" where
  "expression tokens pos = addition tokens pos"

lemma addition_loop_pos:
  "addition_loop tokens pos node = Inr (n, pos') \<Longrightarrow> pos \<le> pos'"
proof (induction tokens pos node rule: addition_loop.induct)
  case (1 tokens pos node)
  show ?case
  proof (cases "\<exists>s. current_token tokens pos = Some (OPERATOR s) \<and> (s = ''+'' \<or> s = ''-'')")
    case False
    with "1.prems" show ?thesis
      by (subst (asm) addition_loop.simps) (auto split: option.splits token.splits if_splits)
  next
    case True
    then obtain s where s: "current_token tokens pos = Some (OPERATOR s)" "s = ''+'' \<or> s = ''-''"
      by blast
    from "1.prems" s obtain tok pos1 right pos2 where
      c: "consume tokens pos ''OPERATOR'' None = Inr (tok, pos1)" and
      p: "multiplication tokens pos1 = Inr (right, pos2)" and
      r: "addition_loop tokens pos2 (BinaryOpNode node s right) = Inr (n, pos')"
      by (subst (asm) addition_loop.simps) (auto split: sum.splits)
    have "pos2 \<le> pos'"
      using "1.IH" [OF s(1) refl s(2) c refl p refl r] .
    with consume_pos [OF c] multiplication_pos [OF p] show ?thesis by simp
  qed
qed

lemma expression_pos:
  "expression tokens pos = Inr (n, pos') \<Longrightarrow> pos < pos' \<and> pos < length tokens"
  by (auto simp: expression_def addition_def split: sum.splits dest!: multiplication_pos addition_loop_pos)

text \<open>
  \<open>assignment\<close> takes the name from the token that \<open>consume\<close> returns. \<open>consume\<close> has
  checked its type, so the last branch is never taken.
\<close>

definition assignment :: "token list \<Rightarrow> nat \<Rightarrow> parse_error + (node \<times> nat)" where
  "assignment tokens pos =
     (case consume tokens pos ''IDENTIFIER'' None of
        Inl e \<Rightarrow> Inl e
      | Inr (IDENTIFIER name, pos1) \<Rightarrow>
          (case consume tokens pos1 ''OPERATOR'' (Some ''='') of
             Inl e \<Rightarrow> Inl e
           | Inr (_, pos2) \<Rightarrow>
               (case expression tokens pos2 of
                  Inl e \<Rightarrow> Inl e
                | Inr (val, pos3) \<Rightarrow> Inr (AssignmentNode name val, pos3)))
      | Inr (_, _) \<Rightarrow> Inl UnexpectedKind)"

lemma assignment_pos:
  "assignment tokens pos = Inr (n, pos') \<Longrightarrow> pos < pos' \<and> pos < length tokens"
  by (auto simp: assignment_def split: sum.splits token.splits dest!: consume_pos expression_pos)

text \<open>
  \<open>statement\<close>, \<open>if_statement\<close> and \<open>while_statement\<close> call each other. In \<open>statement\<close>
  a \<open>KEYWORD\<close> token that is neither \<open>if\<close> nor \<open>while\<close> leaves the \<open>if\<close>/\<open>elif\<close> chain
  without a \<open>return\<close>, which in Python returns \<open>None\<close> and consumes nothing.
\<close>

function statement :: "token list \<Rightarrow> nat \<Rightarrow> parse_error + (node option \<times> nat)"
  and if_statement :: "token list \<Rightarrow> nat \<Rightarrow> parse_error + (node \<times> nat)"
  and while_statement :: "token list \<Rightarrow> nat \<Rightarrow> parse_error + (node \<times> nat)" where
  "statement tokens pos =
     (case current_token tokens pos of
        None \<Rightarrow> Inr (None, pos)
      | Some (KEYWORD kw) \<Rightarrow>
          if kw = ''if'' then
            (case if_statement tokens pos of Inl e \<Rightarrow> Inl e | Inr (n, pos') \<Rightarrow> Inr (Some n, pos'))
          else if kw = ''while'' then
            (case while_statement tokens pos of Inl e \<Rightarrow> Inl e | Inr (n, pos') \<Rightarrow> Inr (Some n, pos'))
          else Inr (None, pos)
      | Some (IDENTIFIER v) \<Rightarrow>
          if (case peek_next_token tokens pos of
                None \<Rightarrow> False
              | Some nxt \<Rightarrow> ttype nxt = ''OPERATOR'' \<and> tvalue nxt = StrVal ''='') then
            (case assignment tokens pos of Inl e \<Rightarrow> Inl e | Inr (n, pos') \<Rightarrow> Inr (Some n, pos'))
          else
            (case expression tokens pos of Inl e \<Rightarrow> Inl e | Inr (n, pos') \<Rightarrow> Inr (Some n, pos'))
      | Some _ \<Rightarrow>
          (case expression tokens pos of Inl e \<Rightarrow> Inl e | Inr (n, pos') \<Rightarrow> Inr (Some n, pos')))"
| "if_statement tokens pos =
     (case consume tokens pos ''KEYWORD'' (Some ''if'') of
        Inl e \<Rightarrow> Inl e
      | Inr (_, pos1) \<Rightarrow>
          (case expression tokens pos1 of
             Inl e \<Rightarrow> Inl e
           | Inr (condition, pos2) \<Rightarrow>
               (case statement tokens pos2 of
                  Inl e \<Rightarrow> Inl e
                | Inr (if_body, pos3) \<Rightarrow>
                    if pos3 < length tokens \<and> ttype (tokens ! pos3) = ''KEYWORD'' \<and>
                       tvalue (tokens ! pos3) = StrVal ''else'' then
                      (case consume tokens pos3 ''KEYWORD'' (Some ''else'') of
                         Inl e \<Rightarrow> Inl e
                       | Inr (_, pos4) \<Rightarrow>
                           (case statement tokens pos4 of
                              Inl e \<Rightarrow> Inl e
                            | Inr (else_body, pos5) \<Rightarrow>
                                Inr (IfNode condition if_body else_body, pos5)))
                    else Inr (IfNode condition if_body None, pos3))))"
| "while_statement tokens pos =
     (case consume tokens pos ''KEYWORD'' (Some ''while'') of
        Inl e \<Rightarrow> Inl e
      | Inr (_, pos1) \<Rightarrow>
          (case expression tokens pos1 of
             Inl e \<Rightarrow> Inl e
           | Inr (condition, pos2) \<Rightarrow>
               (case statement tokens pos2 of
                  Inl e \<Rightarrow> Inl e
                | Inr (body, pos3) \<Rightarrow> Inr (WhileNode condition body, pos3))))"
  by pat_completeness auto

text \<open>
  The second call of \<open>statement\<close> in \<open>if_statement\<close> starts where the first one stopped,
  so termination needs that \<open>statement\<close> never moves the position backwards. This is
  proved first on the domain of the functions.
\<close>

lemma statement_pos_dom:
  "statement_if_statement_while_statement_dom (Inl (tokens, pos)) \<Longrightarrow>
     \<forall>n p'. statement tokens pos = Inr (n, p') \<longrightarrow> pos \<le> p'"
  "statement_if_statement_while_statement_dom (Inr (Inl (tokens1, pos1))) \<Longrightarrow>
     \<forall>n p'. if_statement tokens1 pos1 = Inr (n, p') \<longrightarrow> pos1 \<le> p'"
  "statement_if_statement_while_statement_dom (Inr (Inr (tokens2, pos2))) \<Longrightarrow>
     \<forall>n p'. while_statement tokens2 pos2 = Inr (n, p') \<longrightarrow> pos2 \<le> p'"
proof (induction rule: statement_if_statement_while_statement.pinduct)
  case (1 tokens pos)
  show ?case
  proof (intro allI impI)
    fix n p' assume r: "statement tokens pos = Inr (n, p')"
    show "pos \<le> p'"
    proof (cases "current_token tokens pos")
      case None
      with r show ?thesis by (subst (asm) statement.psimps [OF "1.hyps"]) simp
    next
      case (Some t)
      show ?thesis
      proof (cases "\<exists>kw. t = KEYWORD kw")
        case False
        with r Some show ?thesis
          by (subst (asm) statement.psimps [OF "1.hyps"])
             (auto split: token.splits sum.splits if_splits dest!: expression_pos assignment_pos)
      next
        case True
        then obtain kw where kw: "t = KEYWORD kw" by blast
        consider "kw = ''if''" | "kw \<noteq> ''if''" "kw = ''while''" | "kw \<noteq> ''if''" "kw \<noteq> ''while''"
          by blast
        then show ?thesis
        proof cases
          case 1
          with r Some kw obtain m where "if_statement tokens pos = Inr (m, p')"
            by (subst (asm) statement.psimps [OF "1.hyps"]) (auto split: sum.splits)
          with "1.IH"(1) [OF Some kw 1] show ?thesis by blast
        next
          case 2
          with r Some kw obtain m where "while_statement tokens pos = Inr (m, p')"
            by (subst (asm) statement.psimps [OF "1.hyps"]) (auto split: sum.splits)
          with "1.IH"(2) [OF Some kw 2] show ?thesis by blast
        next
          case 3
          with r Some kw show ?thesis
            by (subst (asm) statement.psimps [OF "1.hyps"]) simp
        qed
      qed
    qed
  qed
next
  case (2 tokens pos)
  show ?case
  proof (intro allI impI)
    fix n p' assume r: "if_statement tokens pos = Inr (n, p')"
    note ps = if_statement.psimps [OF "2.hyps"]
    from r obtain t1 pos1 where c: "consume tokens pos ''KEYWORD'' (Some ''if'') = Inr (t1, pos1)"
      by (subst (asm) ps) (auto split: sum.splits)
    from r c obtain condition pos2 where e: "expression tokens pos1 = Inr (condition, pos2)"
      by (subst (asm) ps) (auto split: sum.splits)
    from r c e obtain if_body pos3 where s: "statement tokens pos2 = Inr (if_body, pos3)"
      by (subst (asm) ps) (auto split: sum.splits)
    have le3: "pos2 \<le> pos3"
      using "2.IH"(1) [OF c refl e refl] s by blast
    have lt2: "pos < pos2"
      using consume_pos [OF c] expression_pos [OF e] by simp
    show "pos \<le> p'"
    proof (cases "pos3 < length tokens \<and> ttype (tokens ! pos3) = ''KEYWORD'' \<and>
                       tvalue (tokens ! pos3) = StrVal ''else''")
      case False
      with r c e s have "p' = pos3"
        by (subst (asm) ps) (auto split: sum.splits)
      with le3 lt2 show ?thesis by simp
    next
      case True
      with r c e s obtain t4 pos4 where
        c4: "consume tokens pos3 ''KEYWORD'' (Some ''else'') = Inr (t4, pos4)"
        by (subst (asm) ps) (auto split: sum.splits)
      with r c e s True obtain else_body where s5: "statement tokens pos4 = Inr (else_body, p')"
        by (subst (asm) ps) (auto split: sum.splits)
      have "pos4 \<le> p'"
        using "2.IH"(2) [OF c refl e refl s refl True c4 refl] s5 by blast
      with consume_pos [OF c4] le3 lt2 show ?thesis by simp
    qed
  qed
next
  case (3 tokens pos)
  show ?case
  proof (intro allI impI)
    fix n p' assume r: "while_statement tokens pos = Inr (n, p')"
    note ps = while_statement.psimps [OF "3.hyps"]
    from r obtain t1 pos1 where c: "consume tokens pos ''KEYWORD'' (Some ''while'') = Inr (t1, pos1)"
      by (subst (asm) ps) (auto split: sum.splits)
    from r c obtain condition pos2 where e: "expression tokens pos1 = Inr (condition, pos2)"
      by (subst (asm) ps) (auto split: sum.splits)
    from r c e obtain body where s: "statement tokens pos2 = Inr (body, p')"
      by (subst (asm) ps) (auto split: sum.splits)
    have "pos2 \<le> p'"
      using "3.IH" [OF c refl e refl] s by blast
    with consume_pos [OF c] expression_pos [OF e] show "pos \<le> p'" by simp
  qed
qed

lemma statement_total: "All statement_if_statement_while_statement_dom"
proof (rule "statement_if_statement_while_statement.termination" [where R = "measure (\<lambda>x. case x of
          Inl (ts, p) \<Rightarrow> 2 * (length ts - p) + 1
        | Inr (Inl (ts, p)) \<Rightarrow> 2 * (length ts - p)
        | Inr (Inr (ts, p)) \<Rightarrow> 2 * (length ts - p))"], goal_cases)
  case 1
  show ?case by simp
next
  case 2
  show ?case by simp
next
  case 3
  show ?case by simp
next
  case (4 tokens pos b x y ba xa ya)
  from 4 have "consume tokens pos ''KEYWORD'' (Some ''if'') = Inr (x, y)"
    and "expression tokens y = Inr (xa, ya)" by simp_all
  from consume_pos [OF this(1)] expression_pos [OF this(2)] show ?case by (simp; arith)
next
  case (5 tokens pos b x y ba xa ya bb xb yb bc xc yc)
  from 5 have c: "consume tokens pos ''KEYWORD'' (Some ''if'') = Inr (x, y)"
    and e: "expression tokens y = Inr (xa, ya)"
    and s: "statement tokens ya = Inr (xb, yb)"
    and c4: "consume tokens yb ''KEYWORD'' (Some ''else'') = Inr (xc, yc)"
    and d: "statement_if_statement_while_statement_dom (Inl (tokens, ya))" by simp_all
  from statement_pos_dom(1) [OF d] s have "ya \<le> yb" by blast
  with consume_pos [OF c] expression_pos [OF e] consume_pos [OF c4] show ?case by (simp; arith)
next
  case (6 tokens pos b x y ba xa ya)
  from 6 have "consume tokens pos ''KEYWORD'' (Some ''while'') = Inr (x, y)"
    and "expression tokens y = Inr (xa, ya)" by simp_all
  from consume_pos [OF this(1)] expression_pos [OF this(2)] show ?case by (simp; arith)
qed

termination statement
  by (rule statement_total)

lemma statement_pos: "statement tokens pos = Inr (n, pos') \<Longrightarrow> pos \<le> pos'"
  using statement_pos_dom(1) [of tokens pos] statement_total by simp

declare statement.simps [simp del] if_statement.simps [simp del] while_statement.simps [simp del]

definition parse :: "token list \<Rightarrow> parse_error + (node option \<times> nat)" where
  "parse tokens = statement tokens 0"

section \<open>Interpreter\<close>

text \<open>
  Values are Python's \<open>int\<close>, \<open>float\<close> and \<open>None\<close>. Integers are unbounded. A float is an
  IEEE 754 double: a finite value, given by the real number it denotes, an infinity with
  its sign (\<open>True\<close> for the positive one), or NaN. The two zeros of IEEE 754 are one value
  here: they are equal in Python, and this interpreter has no operation that tells them
  apart, since a division by either raises.

  The dictionary \<open>variables\<close> is a map. It is threaded through \<open>interpret_node\<close> (the
  method \<open>interpret\<close>) and returned also when an exception is raised, because the
  assignments made before the exception stay in the dictionary.

  A \<open>while\<close> loop of the program may run forever, so \<open>interpret_node\<close> takes fuel: each
  recursive call and each round of the loop uses one unit, and the result \<open>None\<close> means
  that the fuel ran out.
\<close>

datatype pyfloat = Finite real | Inf bool | NaN

datatype val = IntV int | FloatV pyfloat | NoneV

datatype eval_error =
    DivisionByZero | UnknownNode | TypeError | ZeroDivisionError | OverflowError

type_synonym env = "string \<rightharpoonup> val"

type_synonym outcome = "(eval_error + val) \<times> env"

subsection \<open>Rounding to a double\<close>

text \<open>
  \<open>round_double\<close> rounds a real number to the nearest double, ties to the even
  significand. The spacing of the doubles around \<open>x\<close> is \<open>ulp x\<close>: 52 binary places below
  the leading bit of \<open>x\<close>, and \<open>2 powr - 1074\<close> in the subnormal range, where small results
  underflow to zero. A result rounds beyond the largest double exactly when its magnitude
  is at least \<open>overflow_bound\<close>, the midpoint between the largest double and \<open>2 ^ 1024\<close>.
\<close>

definition overflow_bound :: real where
  "overflow_bound = 2 ^ 1024 - 2 ^ 970"

definition round_half_even :: "real \<Rightarrow> int" where
  "round_half_even m =
     (let f = \<lfloor>m\<rfloor>; d = m - of_int f
      in if d < 1 / 2 then f else if 1 / 2 < d then f + 1 else if even f then f else f + 1)"

definition ulp :: "real \<Rightarrow> real" where
  "ulp x = 2 powr (of_int (max \<lfloor>log 2 \<bar>x\<bar>\<rfloor> (- 1022)) - 52)"

definition round_double :: "real \<Rightarrow> real" where
  "round_double x = (if x = 0 then 0 else of_int (round_half_even (x / ulp x)) * ulp x)"

text \<open>
  The result of a float operation whose exact value is \<open>x\<close>: C's double arithmetic, which
  Python uses unchecked for \<open>+\<close>, \<open>-\<close>, \<open>*\<close> and \<open>/\<close> on floats.
\<close>

definition to_float :: "real \<Rightarrow> pyfloat" where
  "to_float x =
     (if overflow_bound \<le> x then Inf True
      else if x \<le> - overflow_bound then Inf False
      else Finite (round_double x))"

text \<open>
  The conversion of an \<open>int\<close> operand of a mixed operation; Python raises \<open>OverflowError\<close>
  ("int too large to convert to float") where C would give an infinity.
\<close>

definition float_of_int :: "int \<Rightarrow> eval_error + pyfloat" where
  "float_of_int i =
     (if overflow_bound \<le> \<bar>of_int i\<bar> then Inl OverflowError
      else Inr (Finite (round_double (of_int i))))"

fun float_add :: "pyfloat \<Rightarrow> pyfloat \<Rightarrow> pyfloat" where
  "float_add (Finite x) (Finite y) = to_float (x + y)"
| "float_add (Inf s) (Inf t) = (if s = t then Inf s else NaN)"
| "float_add (Inf s) (Finite y) = Inf s"
| "float_add (Finite x) (Inf t) = Inf t"
| "float_add _ _ = NaN"

fun float_sub :: "pyfloat \<Rightarrow> pyfloat \<Rightarrow> pyfloat" where
  "float_sub (Finite x) (Finite y) = to_float (x - y)"
| "float_sub (Inf s) (Inf t) = (if s = t then NaN else Inf s)"
| "float_sub (Inf s) (Finite y) = Inf s"
| "float_sub (Finite x) (Inf t) = Inf (\<not> t)"
| "float_sub _ _ = NaN"

fun float_mul :: "pyfloat \<Rightarrow> pyfloat \<Rightarrow> pyfloat" where
  "float_mul (Finite x) (Finite y) = to_float (x * y)"
| "float_mul (Inf s) (Inf t) = Inf (s = t)"
| "float_mul (Inf s) (Finite y) = (if y = 0 then NaN else Inf (s = (0 < y)))"
| "float_mul (Finite x) (Inf t) = (if x = 0 then NaN else Inf ((0 < x) = t))"
| "float_mul _ _ = NaN"

text \<open>\<open>float_div\<close> is used for a divisor other than zero only.\<close>

fun float_div :: "pyfloat \<Rightarrow> pyfloat \<Rightarrow> pyfloat" where
  "float_div (Finite x) (Finite y) = to_float (x / y)"
| "float_div (Inf s) (Inf t) = NaN"
| "float_div (Inf s) (Finite y) = Inf (s = (0 < y))"
| "float_div (Finite x) (Inf t) = Finite 0"
| "float_div _ _ = NaN"

subsection \<open>Python's operators on values\<close>

text \<open>
  The operators follow Python's dispatch on the operand types: two integers give an
  integer (for \<open>/\<close>, a float); with one float operand the integer operand is converted to
  a float first; \<open>None\<close> as an operand raises \<open>TypeError\<close>. The true division of two
  integers gives the double nearest to the exact quotient and raises \<open>OverflowError\<close>
  ("integer division result too large for a float") when that is beyond the doubles.
  \<open>truthy\<close> is the truth value that \<open>if\<close> and \<open>while\<close> take of a value, and \<open>eq_zero\<close> is the
  comparison \<open>right == 0\<close>.
\<close>

fun truthy :: "val \<Rightarrow> bool" where
  "truthy (IntV i) = (i \<noteq> 0)"
| "truthy (FloatV x) = (x \<noteq> Finite 0)"
| "truthy NoneV = False"

fun eq_zero :: "val \<Rightarrow> bool" where
  "eq_zero (IntV i) = (i = 0)"
| "eq_zero (FloatV x) = (x = Finite 0)"
| "eq_zero NoneV = False"

fun py_add :: "val \<Rightarrow> val \<Rightarrow> eval_error + val" where
  "py_add (IntV a) (IntV b) = Inr (IntV (a + b))"
| "py_add (IntV a) (FloatV y) =
     (case float_of_int a of Inl e \<Rightarrow> Inl e | Inr x \<Rightarrow> Inr (FloatV (float_add x y)))"
| "py_add (FloatV x) (IntV b) =
     (case float_of_int b of Inl e \<Rightarrow> Inl e | Inr y \<Rightarrow> Inr (FloatV (float_add x y)))"
| "py_add (FloatV x) (FloatV y) = Inr (FloatV (float_add x y))"
| "py_add _ _ = Inl TypeError"

fun py_sub :: "val \<Rightarrow> val \<Rightarrow> eval_error + val" where
  "py_sub (IntV a) (IntV b) = Inr (IntV (a - b))"
| "py_sub (IntV a) (FloatV y) =
     (case float_of_int a of Inl e \<Rightarrow> Inl e | Inr x \<Rightarrow> Inr (FloatV (float_sub x y)))"
| "py_sub (FloatV x) (IntV b) =
     (case float_of_int b of Inl e \<Rightarrow> Inl e | Inr y \<Rightarrow> Inr (FloatV (float_sub x y)))"
| "py_sub (FloatV x) (FloatV y) = Inr (FloatV (float_sub x y))"
| "py_sub _ _ = Inl TypeError"

fun py_mul :: "val \<Rightarrow> val \<Rightarrow> eval_error + val" where
  "py_mul (IntV a) (IntV b) = Inr (IntV (a * b))"
| "py_mul (IntV a) (FloatV y) =
     (case float_of_int a of Inl e \<Rightarrow> Inl e | Inr x \<Rightarrow> Inr (FloatV (float_mul x y)))"
| "py_mul (FloatV x) (IntV b) =
     (case float_of_int b of Inl e \<Rightarrow> Inl e | Inr y \<Rightarrow> Inr (FloatV (float_mul x y)))"
| "py_mul (FloatV x) (FloatV y) = Inr (FloatV (float_mul x y))"
| "py_mul _ _ = Inl TypeError"

definition float_truediv :: "pyfloat \<Rightarrow> pyfloat \<Rightarrow> eval_error + val" where
  "float_truediv x y =
     (if y = Finite 0 then Inl ZeroDivisionError else Inr (FloatV (float_div x y)))"

fun py_truediv :: "val \<Rightarrow> val \<Rightarrow> eval_error + val" where
  "py_truediv (IntV a) (IntV b) =
     (if b = 0 then Inl ZeroDivisionError
      else if overflow_bound \<le> \<bar>of_int a / of_int b\<bar> then Inl OverflowError
      else Inr (FloatV (Finite (round_double (of_int a / of_int b)))))"
| "py_truediv (IntV a) (FloatV y) =
     (case float_of_int a of Inl e \<Rightarrow> Inl e | Inr x \<Rightarrow> float_truediv x y)"
| "py_truediv (FloatV x) (IntV b) =
     (case float_of_int b of Inl e \<Rightarrow> Inl e | Inr y \<Rightarrow> float_truediv x y)"
| "py_truediv (FloatV x) (FloatV y) = float_truediv x y"
| "py_truediv _ _ = Inl TypeError"

fun interpret_node :: "nat \<Rightarrow> node option \<Rightarrow> env \<Rightarrow> outcome option"
  and while_loop :: "nat \<Rightarrow> node \<Rightarrow> node option \<Rightarrow> val \<Rightarrow> env \<Rightarrow> outcome option" where
  "interpret_node 0 node variables = None"
| "interpret_node (Suc n) (Some (NumberNode v)) variables = Some (Inr (IntV v), variables)"
| "interpret_node (Suc n) (Some (VariableNode name)) variables =
     Some (Inr (case variables name of None \<Rightarrow> IntV 0 | Some v \<Rightarrow> v), variables)"
| "interpret_node (Suc n) (Some (BinaryOpNode l op r)) variables =
     (case interpret_node n (Some l) variables of
        None \<Rightarrow> None
      | Some (Inl e, vars1) \<Rightarrow> Some (Inl e, vars1)
      | Some (Inr left, vars1) \<Rightarrow>
          (case interpret_node n (Some r) vars1 of
             None \<Rightarrow> None
           | Some (Inl e, vars2) \<Rightarrow> Some (Inl e, vars2)
           | Some (Inr right, vars2) \<Rightarrow>
               if op = ''+'' then Some (py_add left right, vars2)
               else if op = ''-'' then Some (py_sub left right, vars2)
               else if op = ''*'' then Some (py_mul left right, vars2)
               else if op = ''/'' then
                 (if eq_zero right then Some (Inl DivisionByZero, vars2)
                  else Some (py_truediv left right, vars2))
               else Some (Inr NoneV, vars2)))"
| "interpret_node (Suc n) (Some (AssignmentNode name v)) variables =
     (case interpret_node n (Some v) variables of
        None \<Rightarrow> None
      | Some (Inl e, vars1) \<Rightarrow> Some (Inl e, vars1)
      | Some (Inr x, vars1) \<Rightarrow> Some (Inr x, vars1(name \<mapsto> x)))"
| "interpret_node (Suc n) (Some (IfNode condition if_body else_body)) variables =
     (case interpret_node n (Some condition) variables of
        None \<Rightarrow> None
      | Some (Inl e, vars1) \<Rightarrow> Some (Inl e, vars1)
      | Some (Inr c, vars1) \<Rightarrow>
          if truthy c then interpret_node n if_body vars1
          else (case else_body of
                  Some b \<Rightarrow> interpret_node n (Some b) vars1
                | None \<Rightarrow> Some (Inr NoneV, vars1)))"
| "interpret_node (Suc n) (Some (WhileNode condition body)) variables =
     while_loop n condition body NoneV variables"
| "interpret_node (Suc n) None variables = Some (Inl UnknownNode, variables)"
| "while_loop 0 condition body result variables = None"
| "while_loop (Suc n) condition body result variables =
     (case interpret_node n (Some condition) variables of
        None \<Rightarrow> None
      | Some (Inl e, vars1) \<Rightarrow> Some (Inl e, vars1)
      | Some (Inr c, vars1) \<Rightarrow>
          if truthy c then
            (case interpret_node n body vars1 of
               None \<Rightarrow> None
             | Some (Inl e, vars2) \<Rightarrow> Some (Inl e, vars2)
             | Some (Inr x, vars2) \<Rightarrow> while_loop n condition body x vars2)
          else Some (Inr result, vars1))"

section \<open>Auxiliary notions for the properties\<close>

text \<open>
  The names that a tree can assign: the names of the \<open>AssignmentNode\<close>s inside it. A tree
  contains no \<open>AssignmentNode\<close> exactly when this set is empty.
\<close>

fun assigned :: "node \<Rightarrow> string set" where
  "assigned (BinaryOpNode l op r) = assigned l \<union> assigned r"
| "assigned (NumberNode v) = {}"
| "assigned (VariableNode name) = {}"
| "assigned (AssignmentNode name v) = insert name (assigned v)"
| "assigned (IfNode c t e) =
     assigned c \<union> (case t of None \<Rightarrow> {} | Some b \<Rightarrow> assigned b)
       \<union> (case e of None \<Rightarrow> {} | Some b \<Rightarrow> assigned b)"
| "assigned (WhileNode c b) = assigned c \<union> (case b of None \<Rightarrow> {} | Some b' \<Rightarrow> assigned b')"

definition assigned_opt :: "node option \<Rightarrow> string set" where
  "assigned_opt x = (case x of None \<Rightarrow> {} | Some nd \<Rightarrow> assigned nd)"






text \<open>
  The loop as the specification words it: evaluate the condition; stop when its result is
  falsy; otherwise evaluate the body, remember its result, and repeat. \<open>while_trace\<close>
  returns the results of the body evaluations in order, one for each condition check that
  was truthy, with the final environment; it returns \<open>None\<close> when an evaluation raises or
  the fuel runs out. \<open>last_result\<close> is the value the specification gives to the loop: the
  last body result, or the initial value when the body never ran.
\<close>

fun while_trace :: "nat \<Rightarrow> node \<Rightarrow> node option \<Rightarrow> env \<Rightarrow> (val list \<times> env) option" where
  "while_trace 0 c b vs = None"
| "while_trace (Suc k) c b vs =
     (case interpret_node k (Some c) vs of
        Some (Inr cv, vs1) \<Rightarrow>
          if truthy cv then
            (case interpret_node k b vs1 of
               Some (Inr x, vs2) \<Rightarrow>
                 (case while_trace k c b vs2 of
                    Some (xs, vs') \<Rightarrow> Some (x # xs, vs')
                  | None \<Rightarrow> None)
             | _ \<Rightarrow> None)
          else Some ([], vs1)
      | _ \<Rightarrow> None)"

definition last_result :: "val \<Rightarrow> val list \<Rightarrow> val" where
  "last_result r0 xs = (if xs = [] then r0 else last xs)"

section \<open>Fuel\<close>

text \<open>More fuel never changes a result that was reached with less.\<close>

lemma fuel_Suc:
  "(\<forall>x vs r. interpret_node n x vs = Some r \<longrightarrow> interpret_node (Suc n) x vs = Some r) \<and>
   (\<forall>c b res vs r. while_loop n c b res vs = Some r \<longrightarrow> while_loop (Suc n) c b res vs = Some r)"
proof (induction n)
  case 0
  show ?case by simp
next
  case (Suc n)
  have I: "interpret_node n x vs = Some r \<Longrightarrow> interpret_node (Suc n) x vs = Some r" for x vs r
    using Suc by blast
  have W: "while_loop n c b res vs = Some r \<Longrightarrow> while_loop (Suc n) c b res vs = Some r"
    for c b res vs r
    using Suc by blast
  have A: "interpret_node (Suc (Suc n)) x vs = Some r" if "interpret_node (Suc n) x vs = Some r"
    for x vs r
  proof (cases x)
    case None
    with that show ?thesis by simp
  next
    case (Some nd)
    show ?thesis
    proof (cases nd)
      case (BinaryOpNode l op ri)
      with that Some show ?thesis
        by (auto split: option.splits sum.splits if_splits dest!: I)
    next
      case (NumberNode v)
      with that Some show ?thesis by simp
    next
      case (VariableNode v)
      with that Some show ?thesis by simp
    next
      case (AssignmentNode name v)
      with that Some show ?thesis
        by (auto split: option.splits sum.splits dest!: I)
    next
      case (IfNode c t e)
      with that Some show ?thesis
        by (auto split: option.splits sum.splits if_splits dest!: I)
    next
      case (WhileNode c b)
      with that Some show ?thesis
        using W by simp
    qed
  qed
  have B: "while_loop (Suc (Suc n)) c b res vs = Some r" if "while_loop (Suc n) c b res vs = Some r"
    for c b res vs r
    using that by (auto split: option.splits sum.splits if_splits dest!: I W)
  from A B show ?case by blast
qed

lemma fuel_mono:
  "interpret_node n x vs = Some r \<Longrightarrow> n \<le> m \<Longrightarrow> interpret_node m x vs = Some r"
proof (induction m)
  case 0
  then show ?case by simp
next
  case (Suc m)
  show ?case
  proof (cases "n = Suc m")
    case True
    with Suc.prems show ?thesis by simp
  next
    case False
    with Suc have "interpret_node m x vs = Some r" by simp
    with fuel_Suc [of m] show ?thesis by blast
  qed
qed

lemma fuel_add:
  "interpret_node n x vs = Some r \<Longrightarrow> interpret_node (k + n) x vs = Some r"
  by (erule fuel_mono) simp

lemma fuel_deterministic:
  assumes "interpret_node n x vs = Some r" and "interpret_node m x vs = Some r'"
  shows "r = r'"
proof -
  from assms(1) have "interpret_node (max n m) x vs = Some r" by (rule fuel_mono) simp
  moreover from assms(2) have "interpret_node (max n m) x vs = Some r'" by (rule fuel_mono) simp
  ultimately show ?thesis by simp
qed

section \<open>Parsing a prefix of the tokens\<close>
















section \<open>Parsing with further tokens\<close>























section \<open>Rounding lemmas\<close>

text \<open>Rounding moves a number by at most half the spacing of the doubles around it.\<close>

lemma round_half_even_error: "\<bar>of_int (round_half_even m) - m\<bar> \<le> 1 / 2"
  unfolding round_half_even_def Let_def by (auto simp: abs_if) linarith+

lemma ulp_pos: "0 < ulp x"
  by (simp add: ulp_def)

lemma round_double_error: "\<bar>round_double x - x\<bar> \<le> ulp x / 2"
proof (cases "x = 0")
  case True
  then show ?thesis using ulp_pos [of 0] by (simp add: round_double_def)
next
  case False
  have "(of_int (round_half_even (x / ulp x)) - x / ulp x) * ulp x = round_double x - x"
    using False ulp_pos [of x] by (simp add: round_double_def left_diff_distrib)
  then have "\<bar>round_double x - x\<bar> =
      \<bar>of_int (round_half_even (x / ulp x)) - x / ulp x\<bar> * \<bar>ulp x\<bar>"
    by (simp only: abs_mult [symmetric])
  then have "\<bar>round_double x - x\<bar> = \<bar>of_int (round_half_even (x / ulp x)) - x / ulp x\<bar> * ulp x"
    using ulp_pos [of x] by simp
  also have "\<dots> \<le> 1 / 2 * ulp x"
    using round_half_even_error [of "x / ulp x"] ulp_pos [of x]
    by (intro mult_right_mono) simp_all
  finally show ?thesis by simp
qed

lemma floor_log2_eqI:
  assumes "2 powr of_int e \<le> \<bar>x\<bar>" and "\<bar>x\<bar> < 2 powr of_int (e + 1)"
  shows "\<lfloor>log 2 \<bar>x\<bar>\<rfloor> = e"
proof -
  from assms(1) powr_gt_zero [of 2 "of_int e"] have pos: "0 < \<bar>x\<bar>" by linarith
  from assms(1) pos have "of_int e \<le> log 2 \<bar>x\<bar>" by (simp add: le_log_iff)
  moreover from assms(2) pos have "log 2 \<bar>x\<bar> < of_int (e + 1)" by (simp add: log_less_iff)
  ultimately show ?thesis by (simp add: floor_eq_iff)
qed

text \<open>The quotient \<open>5 / 2\<close> is a double, so rounding keeps it.\<close>

lemma round_double_5_2: "round_double (5 / 2) = 5 / 2"
proof -
  have "\<lfloor>log 2 \<bar>5 / 2 :: real\<bar>\<rfloor> = 1"
    by (rule floor_log2_eqI) simp_all
  then have u: "ulp (5 / 2) = 1 / 2 ^ 51"
    by (simp add: ulp_def powr_neg_numeral)
  have "(5 / 2 :: real) / (1 / 2 ^ 51) = of_int (5 * 2 ^ 50)" by simp
  then have "round_half_even ((5 / 2) / ulp (5 / 2)) = 5 * 2 ^ 50"
    unfolding u round_half_even_def Let_def by (simp only: floor_of_int) simp
  then show ?thesis
    by (simp add: round_double_def u)
qed

text \<open>
  A quotient below half the smallest subnormal double underflows to zero. Such a quotient
  is then a zero divisor: \<open>5 / (1 / n)\<close> with \<open>n\<close> the integer \<open>1\<close> followed by 400 zeros
  raises "Division by zero".
\<close>

lemma ulp_subnormal:
  assumes "x \<noteq> 0" and "\<bar>x\<bar> < 2 powr (- 1022)"
  shows "ulp x = 2 powr (- 1074)"
proof -
  from assms have "log 2 \<bar>x\<bar> < - 1022" by (simp add: log_less_iff)
  then have "\<lfloor>log 2 \<bar>x\<bar>\<rfloor> < - 1022" by (simp add: floor_less_iff)
  then have "max \<lfloor>log 2 \<bar>x\<bar>\<rfloor> (- 1022) = - 1022" by simp
  then show ?thesis by (simp add: ulp_def)
qed

lemma round_double_underflow: "round_double (1 / 10 ^ 400) = 0"
proof -
  have small: "\<bar>1 / 10 ^ 400 :: real\<bar> < 2 powr (- 1022)"
    by (simp add: powr_neg_numeral field_simps)
  have u: "ulp (1 / 10 ^ 400) = 1 / 2 ^ 1074"
    using ulp_subnormal [OF _ small] by (simp add: powr_neg_numeral)
  have m: "(1 / 10 ^ 400 :: real) / (1 / 2 ^ 1074) = 2 ^ 1074 / 10 ^ 400" by simp
  have lo: "(0::real) \<le> 2 ^ 1074 / 10 ^ 400" by simp
  have hi: "(2 ^ 1074 / 10 ^ 400 :: real) < 1 / 2" by (simp add: field_simps)
  from lo hi have f: "\<lfloor>2 ^ 1074 / 10 ^ 400 :: real\<rfloor> = 0" by (simp add: floor_eq_iff)
  have "round_half_even (2 ^ 1074 / 10 ^ 400) = 0"
    unfolding round_half_even_def Let_def f using hi by simp
  then show ?thesis
    by (simp add: round_double_def u m del: power_numeral)
qed

lemma underflow_divisor_example:
  "interpret_node 3 (Some (BinaryOpNode (NumberNode 5) ''/''
      (BinaryOpNode (NumberNode 1) ''/'' (NumberNode (10 ^ 400))))) Map.empty =
     Some (Inl DivisionByZero, Map.empty)"
proof -
  have b: "\<not> overflow_bound \<le> \<bar>of_int 1 / of_int (10 ^ 400)\<bar>"
    by (simp add: overflow_bound_def field_simps)
  have "interpret_node 2 (Some (BinaryOpNode (NumberNode 1) ''/'' (NumberNode (10 ^ 400)))) Map.empty =
     Some (Inr (FloatV (Finite 0)), Map.empty)"
    using b round_double_underflow by (simp add: numeral_2_eq_2)
  then show ?thesis
    by (simp add: numeral_3_eq_3 numeral_2_eq_2)
qed

section \<open>Frame and loop lemmas\<close>

text \<open>
  Evaluation changes the environment only at assigned names; proved for \<open>interpret_node\<close>
  and the loop together, by induction on the fuel.
\<close>

lemma frame_fuel:
  "(\<forall>x vs res vs' name. interpret_node n x vs = Some (res, vs') \<longrightarrow> name \<notin> assigned_opt x \<longrightarrow>
       vs' name = vs name) \<and>
   (\<forall>c b r0 vs res vs' name. while_loop n c b r0 vs = Some (res, vs') \<longrightarrow>
       name \<notin> assigned c \<union> assigned_opt b \<longrightarrow> vs' name = vs name)"
proof (induction n)
  case 0
  show ?case by simp
next
  case (Suc n)
  have I: "interpret_node n x vs = Some (res, vs') \<Longrightarrow> name \<notin> assigned_opt x \<Longrightarrow> vs' name = vs name"
    for x vs res vs' name
    using Suc by blast
  have W: "while_loop n c b r0 vs = Some (res, vs') \<Longrightarrow> name \<notin> assigned c \<Longrightarrow>
      name \<notin> assigned_opt b \<Longrightarrow> vs' name = vs name"
    for c b r0 vs res vs' name
    using Suc by blast
  have A: "vs' name = vs name"
    if "interpret_node (Suc n) x vs = Some (res, vs')" and "name \<notin> assigned_opt x"
    for x vs res vs' name
  proof (cases x)
    case None
    with that show ?thesis by simp
  next
    case (Some nd)
    show ?thesis
    proof (cases nd)
      case (BinaryOpNode l op ri)
      show ?thesis
      proof (cases "interpret_node n (Some l) vs")
        case None
        with that Some BinaryOpNode show ?thesis by simp
      next
        case (Some a)
        obtain r1 vs1 where a: "a = (r1, vs1)" by (cases a)
        from that(2) \<open>x = Some nd\<close> BinaryOpNode
        have nl: "name \<notin> assigned_opt (Some l)" and nr: "name \<notin> assigned_opt (Some ri)"
          by (simp_all add: assigned_opt_def)
        from I [OF Some [unfolded a] nl] have e1: "vs1 name = vs name" .
        show ?thesis
        proof (cases r1)
          case (Inl err)
          with that(1) \<open>x = Some nd\<close> BinaryOpNode Some a e1 show ?thesis by simp
        next
          case (Inr left)
          show ?thesis
          proof (cases "interpret_node n (Some ri) vs1")
            case None
            with that(1) \<open>x = Some nd\<close> BinaryOpNode Some a Inr show ?thesis by simp
          next
            case (Some a2)
            obtain r2 vs2 where a2: "a2 = (r2, vs2)" by (cases a2)
            from I [OF Some [unfolded a2] nr] have e2: "vs2 name = vs1 name" .
            from that(1) \<open>x = Some nd\<close> BinaryOpNode \<open>interpret_node n (Some l) vs = Some a\<close>
              a Inr Some a2
            have "vs' = vs2"
              by (cases r2) (auto split: if_splits)
            with e1 e2 show ?thesis by simp
          qed
        qed
      qed
    next
      case (NumberNode v)
      with that Some show ?thesis by simp
    next
      case (VariableNode v)
      with that Some show ?thesis by simp
    next
      case (AssignmentNode nm v)
      from that(2) Some AssignmentNode
      have nv: "name \<notin> assigned_opt (Some v)" and ne: "name \<noteq> nm"
        by (auto simp: assigned_opt_def)
      from that(1) Some AssignmentNode I [OF _ nv] ne show ?thesis
        by (auto split: option.splits sum.splits)
    next
      case (IfNode c t e)
      from that(2) Some IfNode
      have nc: "name \<notin> assigned_opt (Some c)" and nt: "name \<notin> assigned_opt t"
        and ne: "name \<notin> assigned_opt e"
        by (auto simp: assigned_opt_def split: option.splits)
      show ?thesis
      proof (cases "interpret_node n (Some c) vs")
        case None
        with that(1) Some IfNode show ?thesis by simp
      next
        case (Some a)
        obtain r1 vs1 where a: "a = (r1, vs1)" by (cases a)
        from I [OF Some [unfolded a] nc] have e1: "vs1 name = vs name" .
        show ?thesis
        proof (cases r1)
          case (Inl err)
          with that(1) \<open>x = Some nd\<close> IfNode Some a e1 show ?thesis by simp
        next
          case (Inr cv)
          show ?thesis
          proof (cases "truthy cv")
            case True
            with that(1) \<open>x = Some nd\<close> IfNode Some a Inr
            have "interpret_node n t vs1 = Some (res, vs')" by simp
            from I [OF this nt] e1 show ?thesis by simp
          next
            case False
            show ?thesis
            proof (cases e)
              case None
              with that(1) \<open>x = Some nd\<close> IfNode Some a Inr False e1 show ?thesis by simp
            next
              case (Some b)
              with that(1) \<open>x = Some nd\<close> IfNode \<open>interpret_node n (Some c) vs = Some a\<close> a Inr False
              have "interpret_node n e vs1 = Some (res, vs')" by simp
              from I [OF this ne] e1 show ?thesis by simp
            qed
          qed
        qed
      qed
    next
      case (WhileNode c b)
      from that(2) Some WhileNode
      have nc: "name \<notin> assigned c" and nb: "name \<notin> assigned_opt b"
        by (auto simp: assigned_opt_def split: option.splits)
      from that(1) Some WhileNode have "while_loop n c b NoneV vs = Some (res, vs')" by simp
      from W [OF this nc nb] show ?thesis .
    qed
  qed
  have B: "vs' name = vs name"
    if "while_loop (Suc n) c b r0 vs = Some (res, vs')" and nc: "name \<notin> assigned c"
      and nb: "name \<notin> assigned_opt b"
    for c b r0 vs res vs' name
  proof (cases "interpret_node n (Some c) vs")
    case None
    with that(1) show ?thesis by simp
  next
    case (Some a)
    obtain r1 vs1 where a: "a = (r1, vs1)" by (cases a)
    from nc have "name \<notin> assigned_opt (Some c)" by (simp add: assigned_opt_def)
    from I [OF Some [unfolded a] this] have e1: "vs1 name = vs name" .
    show ?thesis
    proof (cases r1)
      case (Inl err)
      with that(1) Some a e1 show ?thesis by simp
    next
      case (Inr cv)
      show ?thesis
      proof (cases "truthy cv")
        case False
        with that(1) Some a Inr e1 show ?thesis by simp
      next
        case True
        show ?thesis
        proof (cases "interpret_node n b vs1")
          case None
          with that(1) Some a Inr True show ?thesis by simp
        next
          case (Some a2)
          obtain r2 vs2 where a2: "a2 = (r2, vs2)" by (cases a2)
          from I [OF Some [unfolded a2] nb] have e2: "vs2 name = vs1 name" .
          show ?thesis
          proof (cases r2)
            case (Inl err)
            with that(1) \<open>interpret_node n (Some c) vs = Some a\<close> a \<open>r1 = Inr cv\<close> True Some a2 e1 e2
            show ?thesis by simp
          next
            case (Inr bv)
            with that(1) \<open>interpret_node n (Some c) vs = Some a\<close> a \<open>r1 = Inr cv\<close> True Some a2
            have "while_loop n c b bv vs2 = Some (res, vs')" by simp
            from W [OF this nc nb] e1 e2 show ?thesis by simp
          qed
        qed
      qed
    qed
  qed
  from A B show ?case by blast
qed

text \<open>The loop of the interpreter follows the trace, with the same fuel.\<close>

lemma while_loop_trace:
  "while_loop n c b r0 vs = Some (Inr res, vs') \<Longrightarrow>
     \<exists>xs. while_trace n c b vs = Some (xs, vs') \<and> res = last_result r0 xs"
proof (induction n arbitrary: r0 vs)
  case 0
  then show ?case by simp
next
  case (Suc n)
  from Suc.prems obtain r1 vs1 where c: "interpret_node n (Some c) vs = Some (r1, vs1)"
    by (cases "interpret_node n (Some c) vs") auto
  with Suc.prems obtain cv where cv: "r1 = Inr cv"
    by (cases r1) auto
  show ?case
  proof (cases "truthy cv")
    case False
    with Suc.prems c cv show ?thesis by (simp add: last_result_def)
  next
    case True
    with Suc.prems c cv obtain r2 vs2 where b: "interpret_node n b vs1 = Some (r2, vs2)"
      by (cases "interpret_node n b vs1") auto
    with Suc.prems c cv True obtain x where x: "r2 = Inr x"
      by (cases r2) auto
    with Suc.prems c cv True b have "while_loop n c b x vs2 = Some (Inr res, vs')"
      by simp
    from Suc.IH [OF this] obtain xs where
      t: "while_trace n c b vs2 = Some (xs, vs')" and r: "res = last_result x xs"
      by blast
    from c cv True b x t have "while_trace (Suc n) c b vs = Some (x # xs, vs')"
      by simp
    moreover from r have "res = last_result r0 (x # xs)"
      by (simp add: last_result_def)
    ultimately show ?thesis by blast
  qed
qed

section \<open>Properties\<close>

text \<open>
  The token lists below are what \<open>tokenize\<close> returns for the quoted program texts.
\<close>

text \<open>
  C4: multiplication binds tighter than addition. The tokens of \<open>2 + 3 * 4\<close> parse to the
  tree \<open>BinaryOp(+, 2, BinaryOp(*, 3, 4))\<close>, all five tokens consumed, and interpreting that
  tree in the empty environment returns 14 (with any fuel of at least 3).
\<close>

theorem precedence_example:
  "parse [NUMBER 2, OPERATOR ''+'', NUMBER 3, OPERATOR ''*'', NUMBER 4] =
     Inr (Some (BinaryOpNode (NumberNode 2) ''+''
                 (BinaryOpNode (NumberNode 3) ''*'' (NumberNode 4))), 5)
   \<and> interpret_node (k + 3) (Some (BinaryOpNode (NumberNode 2) ''+''
                 (BinaryOpNode (NumberNode 3) ''*'' (NumberNode 4)))) Map.empty =
     Some (Inr (IntV 14), Map.empty)"
proof
  show "parse [NUMBER 2, OPERATOR ''+'', NUMBER 3, OPERATOR ''*'', NUMBER 4] =
     Inr (Some (BinaryOpNode (NumberNode 2) ''+''
                 (BinaryOpNode (NumberNode 3) ''*'' (NumberNode 4))), 5)"
    by code_simp
  have "interpret_node 3 (Some (BinaryOpNode (NumberNode 2) ''+''
                 (BinaryOpNode (NumberNode 3) ''*'' (NumberNode 4)))) Map.empty =
     Some (Inr (IntV 14), Map.empty)"
    by (simp add: numeral_3_eq_3)
  then show "interpret_node (k + 3) (Some (BinaryOpNode (NumberNode 2) ''+''
                 (BinaryOpNode (NumberNode 3) ''*'' (NumberNode 4)))) Map.empty =
     Some (Inr (IntV 14), Map.empty)"
    by (rule fuel_add)
qed

text \<open>
  C5 does not hold as stated. The tokens of \<open>1\<close> followed by 400 zeros, \<open>/\<close> and \<open>3\<close> parse to a
  division whose right operand is not zero, and its evaluation raises \<open>OverflowError\<close>: no
  quotient is returned.
\<close>

theorem division_overflow_counterexample:
  "parse [NUMBER (10 ^ 400), OPERATOR ''/'', NUMBER 3] =
     Inr (Some (BinaryOpNode (NumberNode (10 ^ 400)) ''/'' (NumberNode 3)), 3)
   \<and> interpret_node 2 (Some (BinaryOpNode (NumberNode (10 ^ 400)) ''/'' (NumberNode 3))) Map.empty =
     Some (Inl OverflowError, Map.empty)"
proof
  show "parse [NUMBER (10 ^ 400), OPERATOR ''/'', NUMBER 3] =
     Inr (Some (BinaryOpNode (NumberNode (10 ^ 400)) ''/'' (NumberNode 3)), 3)"
    by (simp add: parse_def statement.simps current_token_def expression_def addition_def
        multiplication_def primary_def consume_def addition_loop.simps
        multiplication_loop.simps)
  have "overflow_bound \<le> \<bar>of_int (10 ^ 400) / of_int 3\<bar>"
    by (simp add: overflow_bound_def)
  then show "interpret_node 2 (Some (BinaryOpNode (NumberNode (10 ^ 400)) ''/'' (NumberNode 3)))
      Map.empty = Some (Inl OverflowError, Map.empty)"
    by (simp add: numeral_2_eq_2)
qed

text \<open>
  C5, with Python's division in place of the exact quotient: for a \<open>/\<close> node whose
  operands evaluate to \<open>lv\<close> and \<open>rv\<close>, the interpreter raises "Division by zero" exactly
  when \<open>rv\<close> is zero (the integer or the float). Otherwise two integers give the double
  nearest to their exact quotient, which differs from it by at most half the spacing of
  the doubles there, or \<open>OverflowError\<close> when the quotient is too large for a double; two
  floats give their IEEE quotient; and an integer with a float is converted to a float
  first, which raises \<open>OverflowError\<close> when it is too large. The tokens of \<open>5 / 0\<close> parse
  without error and the failure arises on evaluation.
\<close>

theorem division_semantics:
  assumes "interpret_node n (Some l) vs = Some (Inr lv, vs1)"
    and "interpret_node n (Some r) vs1 = Some (Inr rv, vs2)"
  shows "((\<exists>vs'. interpret_node (Suc n) (Some (BinaryOpNode l ''/'' r)) vs = Some (Inl DivisionByZero, vs'))
           \<longleftrightarrow> (rv = IntV 0 \<or> rv = FloatV (Finite 0)))
    \<and> (\<forall>a b. lv = IntV a \<and> rv = IntV b \<and> b \<noteq> 0 \<and> \<bar>of_int a / of_int b\<bar> < overflow_bound \<longrightarrow>
          interpret_node (Suc n) (Some (BinaryOpNode l ''/'' r)) vs =
            Some (Inr (FloatV (Finite (round_double (of_int a / of_int b)))), vs2)
          \<and> \<bar>round_double (of_int a / of_int b) - of_int a / of_int b\<bar>
              \<le> ulp (of_int a / of_int b) / 2)
    \<and> (\<forall>a b. lv = IntV a \<and> rv = IntV b \<and> b \<noteq> 0 \<and> overflow_bound \<le> \<bar>of_int a / of_int b\<bar> \<longrightarrow>
          interpret_node (Suc n) (Some (BinaryOpNode l ''/'' r)) vs = Some (Inl OverflowError, vs2))
    \<and> (\<forall>x y. lv = FloatV x \<and> rv = FloatV y \<and> y \<noteq> Finite 0 \<longrightarrow>
          interpret_node (Suc n) (Some (BinaryOpNode l ''/'' r)) vs =
            Some (Inr (FloatV (float_div x y)), vs2))
    \<and> (\<forall>a y. lv = IntV a \<and> rv = FloatV y \<and> y \<noteq> Finite 0 \<longrightarrow>
          interpret_node (Suc n) (Some (BinaryOpNode l ''/'' r)) vs =
            Some (case float_of_int a of Inl e \<Rightarrow> Inl e | Inr x \<Rightarrow> Inr (FloatV (float_div x y)), vs2))
    \<and> (\<forall>x b. lv = FloatV x \<and> rv = IntV b \<and> b \<noteq> 0 \<longrightarrow>
          interpret_node (Suc n) (Some (BinaryOpNode l ''/'' r)) vs =
            Some (case float_of_int b of Inl e \<Rightarrow> Inl e
                  | Inr y \<Rightarrow> if y = Finite 0 then Inl ZeroDivisionError
                             else Inr (FloatV (float_div x y)), vs2))
    \<and> parse [NUMBER 5, OPERATOR ''/'', NUMBER 0] =
          Inr (Some (BinaryOpNode (NumberNode 5) ''/'' (NumberNode 0)), 3)
    \<and> interpret_node (k + 2) (Some (BinaryOpNode (NumberNode 5) ''/'' (NumberNode 0))) Map.empty =
          Some (Inl DivisionByZero, Map.empty)"
proof (intro conjI)
  have z: "eq_zero rv \<longleftrightarrow> (rv = IntV 0 \<or> rv = FloatV (Finite 0))"
    by (cases rv) simp_all
  have nz: "py_truediv lv rv \<noteq> Inl DivisionByZero"
    by (cases lv; cases rv)
       (auto simp: float_truediv_def float_of_int_def split: sum.splits if_splits)
  show "(\<exists>vs'. interpret_node (Suc n) (Some (BinaryOpNode l ''/'' r)) vs = Some (Inl DivisionByZero, vs'))
           \<longleftrightarrow> (rv = IntV 0 \<or> rv = FloatV (Finite 0))"
    using assms z nz by auto
  show "\<forall>a b. lv = IntV a \<and> rv = IntV b \<and> b \<noteq> 0 \<and> \<bar>of_int a / of_int b\<bar> < overflow_bound \<longrightarrow>
          interpret_node (Suc n) (Some (BinaryOpNode l ''/'' r)) vs =
            Some (Inr (FloatV (Finite (round_double (of_int a / of_int b)))), vs2)
          \<and> \<bar>round_double (of_int a / of_int b) - of_int a / of_int b\<bar>
              \<le> ulp (of_int a / of_int b) / 2"
  proof (intro allI impI conjI)
    fix a b
    assume "lv = IntV a \<and> rv = IntV b \<and> b \<noteq> 0 \<and> \<bar>of_int a / of_int b\<bar> < overflow_bound"
    with assms show "interpret_node (Suc n) (Some (BinaryOpNode l ''/'' r)) vs =
            Some (Inr (FloatV (Finite (round_double (of_int a / of_int b)))), vs2)"
      by auto
    show "\<bar>round_double (of_int a / of_int b) - of_int a / of_int b\<bar>
              \<le> ulp (of_int a / of_int b) / 2"
      by (rule round_double_error)
  qed
  show "\<forall>a b. lv = IntV a \<and> rv = IntV b \<and> b \<noteq> 0 \<and> overflow_bound \<le> \<bar>of_int a / of_int b\<bar> \<longrightarrow>
          interpret_node (Suc n) (Some (BinaryOpNode l ''/'' r)) vs = Some (Inl OverflowError, vs2)"
    using assms by auto
  show "\<forall>x y. lv = FloatV x \<and> rv = FloatV y \<and> y \<noteq> Finite 0 \<longrightarrow>
          interpret_node (Suc n) (Some (BinaryOpNode l ''/'' r)) vs =
            Some (Inr (FloatV (float_div x y)), vs2)"
    using assms by (auto simp: float_truediv_def)
  show "\<forall>a y. lv = IntV a \<and> rv = FloatV y \<and> y \<noteq> Finite 0 \<longrightarrow>
          interpret_node (Suc n) (Some (BinaryOpNode l ''/'' r)) vs =
            Some (case float_of_int a of Inl e \<Rightarrow> Inl e | Inr x \<Rightarrow> Inr (FloatV (float_div x y)), vs2)"
    using assms by (auto simp: float_truediv_def split: sum.splits)
  show "\<forall>x b. lv = FloatV x \<and> rv = IntV b \<and> b \<noteq> 0 \<longrightarrow>
          interpret_node (Suc n) (Some (BinaryOpNode l ''/'' r)) vs =
            Some (case float_of_int b of Inl e \<Rightarrow> Inl e
                  | Inr y \<Rightarrow> if y = Finite 0 then Inl ZeroDivisionError
                             else Inr (FloatV (float_div x y)), vs2)"
    using assms by (auto simp: float_truediv_def split: sum.splits)
  show "parse [NUMBER 5, OPERATOR ''/'', NUMBER 0] =
          Inr (Some (BinaryOpNode (NumberNode 5) ''/'' (NumberNode 0)), 3)"
    by code_simp
  have "interpret_node 2 (Some (BinaryOpNode (NumberNode 5) ''/'' (NumberNode 0))) Map.empty =
          Some (Inl DivisionByZero, Map.empty)"
    by (simp add: numeral_2_eq_2)
  then show "interpret_node (k + 2) (Some (BinaryOpNode (NumberNode 5) ''/'' (NumberNode 0))) Map.empty =
          Some (Inl DivisionByZero, Map.empty)"
    by (rule fuel_add)
qed

theorem division_semantics_witness:
  "interpret_node 1 (Some (NumberNode 5)) Map.empty = Some (Inr (IntV 5), Map.empty)
   \<and> interpret_node 1 (Some (NumberNode 2)) Map.empty = Some (Inr (IntV 2), Map.empty)
   \<and> (2::int) \<noteq> 0 \<and> \<bar>of_int 5 / of_int 2\<bar> < overflow_bound
   \<and> interpret_node (Suc 1) (Some (BinaryOpNode (NumberNode 5) ''/'' (NumberNode 2))) Map.empty =
         Some (Inr (FloatV (Finite (5 / 2))), Map.empty)
   \<and> \<not> (\<exists>vs'. interpret_node (Suc 1) (Some (BinaryOpNode (NumberNode 5) ''/'' (NumberNode 2)))
         Map.empty = Some (Inl DivisionByZero, vs'))"
proof -
  have h1: "interpret_node 1 (Some (NumberNode 5)) Map.empty = Some (Inr (IntV 5), Map.empty)"
    by simp
  have h2: "interpret_node 1 (Some (NumberNode 2)) Map.empty = Some (Inr (IntV 2), Map.empty)"
    by simp
  have h3: "(2::int) \<noteq> 0 \<and> \<bar>of_int 5 / of_int 2\<bar> < overflow_bound"
    by (simp add: overflow_bound_def)
  from division_semantics [OF h1 h2, of 0] h3
  have "interpret_node (Suc 1) (Some (BinaryOpNode (NumberNode 5) ''/'' (NumberNode 2))) Map.empty =
         Some (Inr (FloatV (Finite (round_double (of_int 5 / of_int 2)))), Map.empty)"
    by blast
  then have a: "interpret_node (Suc 1) (Some (BinaryOpNode (NumberNode 5) ''/'' (NumberNode 2)))
      Map.empty = Some (Inr (FloatV (Finite (5 / 2))), Map.empty)"
    by (simp only: of_int_numeral round_double_5_2)
  from division_semantics [OF h1 h2, of 0]
  have b: "\<not> (\<exists>vs'. interpret_node (Suc 1) (Some (BinaryOpNode (NumberNode 5) ''/'' (NumberNode 2)))
         Map.empty = Some (Inl DivisionByZero, vs'))"
    by simp
  from h1 h2 h3 a b show ?thesis by blast
qed

text \<open>
  C6: an \<open>AssignmentNode\<close> evaluates its value expression, stores the result under the
  name (replacing any earlier binding) and returns it; a \<open>VariableNode\<close> whose name is not
  in the environment returns 0. The tokens of \<open>x = 5\<close> parse to \<open>Assignment(x, 5)\<close>, which
  evaluates to 5 and leaves \<open>x\<close> bound to 5; \<open>Variable(y)\<close> then returns 0.
\<close>

theorem assignment_and_default:
  "(interpret_node n (Some v) vs = Some (Inr x, vs1) \<longrightarrow>
      interpret_node (Suc n) (Some (AssignmentNode name v)) vs = Some (Inr x, vs1(name \<mapsto> x)))
   \<and> (vs y = None \<longrightarrow>
      interpret_node (Suc n) (Some (VariableNode y)) vs = Some (Inr (IntV 0), vs))
   \<and> parse [IDENTIFIER ''x'', OPERATOR ''='', NUMBER 5] =
      Inr (Some (AssignmentNode ''x'' (NumberNode 5)), 3)
   \<and> interpret_node (k + 2) (Some (AssignmentNode ''x'' (NumberNode 5))) Map.empty =
      Some (Inr (IntV 5), [''x'' \<mapsto> IntV 5])
   \<and> interpret_node (k + 1) (Some (VariableNode ''y'')) [''x'' \<mapsto> IntV 5] =
      Some (Inr (IntV 0), [''x'' \<mapsto> IntV 5])"
proof (intro conjI)
  show "interpret_node n (Some v) vs = Some (Inr x, vs1) \<longrightarrow>
      interpret_node (Suc n) (Some (AssignmentNode name v)) vs = Some (Inr x, vs1(name \<mapsto> x))"
    by simp
  show "vs y = None \<longrightarrow>
      interpret_node (Suc n) (Some (VariableNode y)) vs = Some (Inr (IntV 0), vs)"
    by simp
  show "parse [IDENTIFIER ''x'', OPERATOR ''='', NUMBER 5] =
      Inr (Some (AssignmentNode ''x'' (NumberNode 5)), 3)"
    by code_simp
  have "interpret_node 2 (Some (AssignmentNode ''x'' (NumberNode 5))) Map.empty =
      Some (Inr (IntV 5), [''x'' \<mapsto> IntV 5])"
    by (simp add: numeral_2_eq_2)
  then show "interpret_node (k + 2) (Some (AssignmentNode ''x'' (NumberNode 5))) Map.empty =
      Some (Inr (IntV 5), [''x'' \<mapsto> IntV 5])"
    by (rule fuel_add)
  have "interpret_node 1 (Some (VariableNode ''y'')) [''x'' \<mapsto> IntV 5] =
      Some (Inr (IntV 0), [''x'' \<mapsto> IntV 5])"
    by simp
  then show "interpret_node (k + 1) (Some (VariableNode ''y'')) [''x'' \<mapsto> IntV 5] =
      Some (Inr (IntV 0), [''x'' \<mapsto> IntV 5])"
    by (rule fuel_add)
qed

theorem assignment_and_default_witness:
  "interpret_node 1 (Some (NumberNode 7)) [''x'' \<mapsto> IntV 5] = Some (Inr (IntV 7), [''x'' \<mapsto> IntV 5])
   \<and> interpret_node (Suc 1) (Some (AssignmentNode ''x'' (NumberNode 7))) [''x'' \<mapsto> IntV 5] =
       Some (Inr (IntV 7), [''x'' \<mapsto> IntV 7])
   \<and> [''x'' \<mapsto> IntV 5] ''y'' = None
   \<and> interpret_node (Suc 1) (Some (VariableNode ''y'')) [''x'' \<mapsto> IntV 5] =
       Some (Inr (IntV 0), [''x'' \<mapsto> IntV 5])"
proof -
  have h1: "interpret_node 1 (Some (NumberNode 7)) [''x'' \<mapsto> IntV 5] =
      Some (Inr (IntV 7), [''x'' \<mapsto> IntV 5])"
    by simp
  have h2: "[''x'' \<mapsto> IntV 5] ''y'' = None"
    by simp
  from assignment_and_default [of 1 "NumberNode 7" "[''x'' \<mapsto> IntV 5]" "IntV 7"
      "[''x'' \<mapsto> IntV 5]" "''x''" "''y''" 0] h1 h2
  show ?thesis by simp
qed

text \<open>
  C7: a call of the interpreter that returns, with a value or with an error, leaves every
  name unchanged that no \<open>AssignmentNode\<close> of the tree assigns; so a tree without an
  \<open>AssignmentNode\<close> leaves the whole environment unchanged.
\<close>

theorem environment_frame:
  assumes "interpret_node n x vs = Some (res, vs')"
  shows "(\<forall>name. name \<notin> assigned_opt x \<longrightarrow> vs' name = vs name)
       \<and> (assigned_opt x = {} \<longrightarrow> vs' = vs)"
proof -
  from frame_fuel [of n] assms
  have a: "\<forall>name. name \<notin> assigned_opt x \<longrightarrow> vs' name = vs name" by blast
  then have "assigned_opt x = {} \<longrightarrow> vs' = vs" by (auto intro!: ext)
  with a show ?thesis by blast
qed

theorem environment_frame_witness:
  "interpret_node 2 (Some (BinaryOpNode (VariableNode ''x'') ''/'' (NumberNode 0))) [''x'' \<mapsto> IntV 1] =
     Some (Inl DivisionByZero, [''x'' \<mapsto> IntV 1])
   \<and> assigned_opt (Some (BinaryOpNode (VariableNode ''x'') ''/'' (NumberNode 0))) = {}
   \<and> ''x'' \<notin> assigned_opt (Some (BinaryOpNode (VariableNode ''x'') ''/'' (NumberNode 0)))
   \<and> [''x'' \<mapsto> IntV 1] ''x'' = Some (IntV 1)"
proof -
  have h: "interpret_node 2 (Some (BinaryOpNode (VariableNode ''x'') ''/'' (NumberNode 0)))
      [''x'' \<mapsto> IntV 1] = Some (Inl DivisionByZero, [''x'' \<mapsto> IntV 1])"
    by (simp add: numeral_2_eq_2)
  have e: "assigned_opt (Some (BinaryOpNode (VariableNode ''x'') ''/'' (NumberNode 0))) = {}"
    by (simp add: assigned_opt_def)
  from environment_frame [OF h] e h show ?thesis by simp
qed

text \<open>
  C8: an \<open>IfNode\<close> first evaluates its condition. A truthy result, which is a number
  other than zero, selects the then-branch; otherwise the else-branch is evaluated when
  there is one, and without one the result is \<open>None\<close> in the environment that the
  condition left, whatever the then-branch is.
\<close>

theorem if_semantics:
  assumes "interpret_node n (Some c) vs = Some (Inr cv, vs1)"
  shows "(truthy cv \<longleftrightarrow> cv \<noteq> NoneV \<and> cv \<noteq> IntV 0 \<and> cv \<noteq> FloatV (Finite 0))
    \<and> (truthy cv \<longrightarrow>
          interpret_node (Suc n) (Some (IfNode c t e)) vs = interpret_node n t vs1)
    \<and> (\<not> truthy cv \<longrightarrow> (\<forall>b. e = Some b \<longrightarrow>
          interpret_node (Suc n) (Some (IfNode c t e)) vs = interpret_node n (Some b) vs1))
    \<and> (\<not> truthy cv \<and> e = None \<longrightarrow>
          interpret_node (Suc n) (Some (IfNode c t e)) vs = Some (Inr NoneV, vs1))"
proof (intro conjI)
  show "truthy cv \<longleftrightarrow> cv \<noteq> NoneV \<and> cv \<noteq> IntV 0 \<and> cv \<noteq> FloatV (Finite 0)"
    by (cases cv) simp_all
qed (use assms in simp_all)

theorem if_semantics_witness:
  "interpret_node 1 (Some (NumberNode 3)) Map.empty = Some (Inr (IntV 3), Map.empty)
   \<and> truthy (IntV 3)
   \<and> interpret_node (Suc 1) (Some (IfNode (NumberNode 3) (Some (NumberNode 8)) None)) Map.empty =
       Some (Inr (IntV 8), Map.empty)
   \<and> interpret_node 1 (Some (NumberNode 0)) Map.empty = Some (Inr (IntV 0), Map.empty)
   \<and> \<not> truthy (IntV 0)
   \<and> interpret_node (Suc 1) (Some (IfNode (NumberNode 0) None (Some (NumberNode 9)))) Map.empty =
       Some (Inr (IntV 9), Map.empty)
   \<and> interpret_node (Suc 1) (Some (IfNode (NumberNode 0) None None)) Map.empty =
       Some (Inr NoneV, Map.empty)"
proof -
  have h1: "interpret_node 1 (Some (NumberNode 3)) Map.empty = Some (Inr (IntV 3), Map.empty)"
    by simp
  have h2: "interpret_node 1 (Some (NumberNode 0)) Map.empty = Some (Inr (IntV 0), Map.empty)"
    by simp
  from if_semantics [OF h1, of "Some (NumberNode 8)" None]
  have a: "interpret_node (Suc 1) (Some (IfNode (NumberNode 3) (Some (NumberNode 8)) None)) Map.empty =
       Some (Inr (IntV 8), Map.empty)"
    by simp
  from if_semantics [OF h2, of None "Some (NumberNode 9)"]
  have b: "interpret_node (Suc 1) (Some (IfNode (NumberNode 0) None (Some (NumberNode 9)))) Map.empty =
       Some (Inr (IntV 9), Map.empty)"
    by simp
  from if_semantics [OF h2, of None None]
  have c: "interpret_node (Suc 1) (Some (IfNode (NumberNode 0) None None)) Map.empty =
       Some (Inr NoneV, Map.empty)"
    by simp
  from h1 h2 a b c show ?thesis by simp
qed

text \<open>
  C9: when the first condition check is falsy, the loop returns \<open>None\<close> in the
  environment that the check left, whatever the body is. Whenever the loop returns a
  value, its run is a trace of the loop as specified: one body evaluation for each truthy
  condition check, and the value returned is the last body result, or \<open>None\<close> for the
  empty trace.
\<close>

theorem while_semantics:
  "(interpret_node m (Some c) vs = Some (Inr cv, vs1) \<and> \<not> truthy cv \<longrightarrow>
      interpret_node (Suc (Suc m)) (Some (WhileNode c b)) vs = Some (Inr NoneV, vs1))
   \<and> (interpret_node n (Some (WhileNode c b)) vs = Some (Inr res, vs') \<longrightarrow>
      (\<exists>k xs. while_trace k c b vs = Some (xs, vs') \<and> res = last_result NoneV xs))"
proof (intro conjI impI)
  assume "interpret_node m (Some c) vs = Some (Inr cv, vs1) \<and> \<not> truthy cv"
  then show "interpret_node (Suc (Suc m)) (Some (WhileNode c b)) vs = Some (Inr NoneV, vs1)"
    by simp
next
  assume a: "interpret_node n (Some (WhileNode c b)) vs = Some (Inr res, vs')"
  then obtain n' where n: "n = Suc n'" by (cases n) auto
  with a have "while_loop n' c b NoneV vs = Some (Inr res, vs')" by simp
  from while_loop_trace [OF this]
  show "\<exists>k xs. while_trace k c b vs = Some (xs, vs') \<and> res = last_result NoneV xs"
    by blast
qed

theorem while_semantics_witness:
  "interpret_node 1 (Some (NumberNode 0)) Map.empty = Some (Inr (IntV 0), Map.empty)
   \<and> \<not> truthy (IntV 0)
   \<and> interpret_node (Suc (Suc 1)) (Some (WhileNode (NumberNode 0) None)) Map.empty =
        Some (Inr NoneV, Map.empty)
   \<and> interpret_node 6 (Some (WhileNode (VariableNode ''x'')
          (Some (AssignmentNode ''x'' (BinaryOpNode (VariableNode ''x'') ''-'' (NumberNode 1))))))
        [''x'' \<mapsto> IntV 2] = Some (Inr (IntV 0), [''x'' \<mapsto> IntV 0])
   \<and> (\<exists>k xs. while_trace k (VariableNode ''x'')
          (Some (AssignmentNode ''x'' (BinaryOpNode (VariableNode ''x'') ''-'' (NumberNode 1))))
          [''x'' \<mapsto> IntV 2] = Some (xs, [''x'' \<mapsto> IntV 0]) \<and> IntV 0 = last_result NoneV xs)"
proof -
  have h1: "interpret_node 1 (Some (NumberNode 0)) Map.empty = Some (Inr (IntV 0), Map.empty)
      \<and> \<not> truthy (IntV 0)"
    by simp
  have h2: "interpret_node 6 (Some (WhileNode (VariableNode ''x'')
          (Some (AssignmentNode ''x'' (BinaryOpNode (VariableNode ''x'') ''-'' (NumberNode 1))))))
        [''x'' \<mapsto> IntV 2] = Some (Inr (IntV 0), [''x'' \<mapsto> IntV 0])"
    by (simp add: eval_nat_numeral)
  from while_semantics [of 1 "NumberNode 0" Map.empty "IntV 0" Map.empty None] h1
  have a: "interpret_node (Suc (Suc 1)) (Some (WhileNode (NumberNode 0) None)) Map.empty =
        Some (Inr NoneV, Map.empty)"
    by blast
  from while_semantics [of _ _ _ _ _ _ 6 "IntV 0" "[''x'' \<mapsto> IntV 0]"] h2
  have b: "\<exists>k xs. while_trace k (VariableNode ''x'')
          (Some (AssignmentNode ''x'' (BinaryOpNode (VariableNode ''x'') ''-'' (NumberNode 1))))
          [''x'' \<mapsto> IntV 2] = Some (xs, [''x'' \<mapsto> IntV 0]) \<and> IntV 0 = last_result NoneV xs"
    by blast
  from h1 h2 a b show ?thesis by blast
qed

text \<open>
  C10: a \<open>BinaryOpNode\<close> whose operator is none of \<open>+\<close>, \<open>-\<close>, \<open>*\<close>, \<open>/\<close> evaluates both
  operands and returns \<open>None\<close>; no error is raised for the operator.
\<close>

theorem unknown_operator_no_value:
  assumes "op \<noteq> ''+''" and "op \<noteq> ''-''" and "op \<noteq> ''*''" and "op \<noteq> ''/''"
    and "interpret_node n (Some l) vs = Some (Inr lv, vs1)"
    and "interpret_node n (Some r) vs1 = Some (Inr rv, vs2)"
  shows "interpret_node (Suc n) (Some (BinaryOpNode l op r)) vs = Some (Inr NoneV, vs2)"
  using assms by simp

theorem unknown_operator_no_value_witness:
  "''<'' \<noteq> ''+'' \<and> ''<'' \<noteq> ''-'' \<and> ''<'' \<noteq> ''*'' \<and> ''<'' \<noteq> ''/''
   \<and> interpret_node 1 (Some (VariableNode ''x'')) [''x'' \<mapsto> IntV 10] =
       Some (Inr (IntV 10), [''x'' \<mapsto> IntV 10])
   \<and> interpret_node 1 (Some (NumberNode 5)) [''x'' \<mapsto> IntV 10] =
       Some (Inr (IntV 5), [''x'' \<mapsto> IntV 10])
   \<and> interpret_node (Suc 1) (Some (BinaryOpNode (VariableNode ''x'') ''<'' (NumberNode 5)))
         [''x'' \<mapsto> IntV 10] = Some (Inr NoneV, [''x'' \<mapsto> IntV 10])"
proof -
  have o: "''<'' \<noteq> ''+''" "''<'' \<noteq> ''-''" "''<'' \<noteq> ''*''" "''<'' \<noteq> ''/''"
    by simp_all
  have h1: "interpret_node 1 (Some (VariableNode ''x'')) [''x'' \<mapsto> IntV 10] =
       Some (Inr (IntV 10), [''x'' \<mapsto> IntV 10])"
    by simp
  have h2: "interpret_node 1 (Some (NumberNode 5)) [''x'' \<mapsto> IntV 10] =
       Some (Inr (IntV 5), [''x'' \<mapsto> IntV 10])"
    by simp
  from unknown_operator_no_value [OF o h1 h2] o h1 h2 show ?thesis by blast
qed

text \<open>
  C1: the failing input. A token list that starts with the keyword \<open>def\<close> or \<open>else\<close> is
  not empty, and \<open>parse\<close> returns \<open>None\<close> for it without consuming a token.
\<close>

theorem keyword_yields_no_statement:
  "parse (KEYWORD ''def'' # rest) = Inr (None, 0) \<and> parse (KEYWORD ''else'' # rest) = Inr (None, 0)"
  by (simp add: parse_def statement.simps current_token_def)



text \<open>
  C3: the failing input. On the tokens of \<open>1 +\<close> the parser needs an operand after the
  operator; \<open>primary\<close> reads the type of the missing token, and the failure is Python's
  \<open>AttributeError\<close>, not the "Unexpected end of input" of \<open>consume\<close>.
\<close>

theorem trailing_operator_error:
  "parse [NUMBER 1, OPERATOR ''+''] = Inl AttributeError"
  by code_simp

end
